theory Spec2Isabelle
  imports Main "HOL-Library.AList" "HOL-Library.Word" "HOL-Library.Char_ord"
    "HOL-Library.List_Lexorder"
begin

section \<open>Shared memory for parallel agents: the data model\<close>

text \<open>
  The module \<^verbatim>\<open>shared_memory.py\<close> keeps one JSON document on disk. Every
  operation of the class \<^verbatim>\<open>AgentMemory\<close> opens the lock file, loads the whole
  document, works on the loaded object and (for the two mutating operations) writes the
  whole document back.

  Python dictionaries keep their keys distinct and iterate in insertion order; the
  order decides in which order conflicts are appended. A dictionary is therefore an
  association list: \<open>map_of d k\<close> is \<^verbatim>\<open>d.get(k)\<close>, \<open>AList.update k v d\<close> is
  \<^verbatim>\<open>d[k] = v\<close> (it replaces the entry in place, or appends a new entry at the end),
  \<open>length d\<close> is \<^verbatim>\<open>len(d)\<close> and the list itself is \<^verbatim>\<open>d.items()\<close>. That the keys
  of a dictionary are distinct is the predicate \<open>distinct (map fst d)\<close>.
\<close>

type_synonym ('k, 'v) dict = "('k \<times> 'v) list"

text \<open>
  A value of type \<^verbatim>\<open>Any\<close> that the document can hold is a JSON value. A Python
  float is kept as its 64-bit pattern: the module stores and copies floats and never
  computes with them.
\<close>

type_synonym float64 = "64 word"

datatype json =
    JNull
  | JBool bool
  | JInt int
  | JFloat float64
  | JStr string
  | JArr "json list"
  | JObj "(string \<times> json) list"

text \<open>
  The dataclass \<^verbatim>\<open>AgentDiscovery\<close>. The field \<^verbatim>\<open>value\<close> is called \<open>val\<close> here.
  \<^verbatim>\<open>__post_init__\<close> replaces a missing tag list by the empty list, so \<open>tags\<close> is
  always a list. \<^verbatim>\<open>asdict\<close> turns the object into the dictionary with the same six
  fields, which is what the document stores; the record stands for both.
\<close>

record AgentDiscovery =
  agent_id :: string
  key :: string
  val :: json
  timestamp :: string
  confidence :: float64
  tags :: "string list"

text \<open>An entry of the conflict log: \<^verbatim>\<open>{"key", "agents", "values", "timestamp"}\<close>.\<close>

record conflict =
  c_key :: string
  c_agents :: "string list"
  c_values :: "json list"
  c_timestamp :: string

text \<open>A stored decision: \<^verbatim>\<open>{"decision", "decided_by", "timestamp"}\<close>.\<close>

record decision_entry =
  decision :: json
  decided_by :: string
  d_timestamp :: string

text \<open>
  The \<^verbatim>\<open>metadata\<close> object. A fresh document has \<^verbatim>\<open>created\<close> and \<^verbatim>\<open>version\<close>
  only; the other four keys are absent (\<open>None\<close>) until an operation sets them.
\<close>

record metadata =
  created :: string
  version :: string
  last_updated :: "string option"
  total_discoveries :: "int option"
  checkpoint_name :: "string option"
  checkpoint_time :: "string option"

text \<open>The document (the variable \<^verbatim>\<open>memory\<close> of every method).\<close>

record memory =
  discoveries :: "(string, (string, AgentDiscovery) dict) dict"
  conflicts :: "conflict list"
  decisions :: "(string, decision_entry) dict"
  metadata :: metadata

subsection \<open>The environment: files, paths and clocks\<close>

text \<open>
  A file holds either a document or nothing (the lock file, which is opened for
  writing and never written to). \<^verbatim>\<open>json.dump\<close> followed by \<^verbatim>\<open>json.load\<close> gives
  the document back, so a file is modelled by the document it holds. The file system is
  a map from paths to files. A path stands for the file it names: links and \<^verbatim>\<open>..\<close>
  are not followed, so two paths are the same file exactly when they are equal.

  The document and the lock file are written where the store keeps them. Only
  \<^verbatim>\<open>checkpoint\<close> opens a file whose path depends on its argument; there the directories
  matter, and that operation takes the set of existing directories. \<open>OSError\<close> is the
  error of an \<^verbatim>\<open>open\<close> for writing that fails for the path itself (Python raises its
  subclass \<^verbatim>\<open>FileNotFoundError\<close>, \<^verbatim>\<open>NotADirectoryError\<close> or \<^verbatim>\<open>IsADirectoryError\<close>).
  Failures for other reasons (permissions, a full disk) are not modelled.
\<close>

datatype file_content = EmptyFile | JsonFile memory

type_synonym 'p fs = "'p \<rightharpoonup> file_content"

datatype error = FileNotFoundError | JSONDecodeError | OSError

text \<open>
  Paths are values of \<^verbatim>\<open>pathlib.Path\<close>. The three operations of the library that
  the module uses are parameters of the model: \<^verbatim>\<open>checkpoint\<close> uses \<^verbatim>\<open>parent\<close> and
  the operator \<^verbatim>\<open>/\<close>, the constructor uses \<^verbatim>\<open>with_suffix\<close>.
\<close>

record 'p path_ops =
  parent :: "'p \<Rightarrow> 'p"
  joinpath :: "'p \<Rightarrow> string \<Rightarrow> 'p"

record 'p pathlib = "'p path_ops" +
  with_suffix :: "'p \<Rightarrow> string \<Rightarrow> 'p"

text \<open>
  The attributes of an \<^verbatim>\<open>AgentMemory\<close> object.
\<close>

record 'p AgentMemory =
  memory_path :: 'p
  lock_path :: 'p

text \<open>
  \<^verbatim>\<open>datetime.utcnow().isoformat()\<close> is read several times during one call and may
  give a different string each time. A call therefore takes a clock \<open>utcnow\<close>, where
  \<open>utcnow i\<close> is the string returned by the \<open>i\<close>-th read of that call (counted from 0).
\<close>

type_synonym clock = "nat \<Rightarrow> string"

section \<open>The operations\<close>

subsection \<open>Initialisation\<close>

definition fresh_memory :: "string \<Rightarrow> memory" where
  "fresh_memory now =
     \<lparr>discoveries = [], conflicts = [], decisions = [],
      metadata = \<lparr>created = now, version = ''1.0'', last_updated = None,
                  total_discoveries = None, checkpoint_name = None,
                  checkpoint_time = None\<rparr>\<rparr>"

text \<open>\<^verbatim>\<open>_initialize_memory\<close>: write a fresh document unless the file exists.\<close>

definition initialize_memory :: "'p AgentMemory \<Rightarrow> clock \<Rightarrow> 'p fs \<Rightarrow> 'p fs" where
  "initialize_memory self utcnow fs =
     (if fs (memory_path self) = None
      then fs(memory_path self \<mapsto> JsonFile (fresh_memory (utcnow 0)))
      else fs)"

text \<open>
  \<^verbatim>\<open>__init__\<close>: store the path, derive the lock path, initialise the document.
  (Creating the parent directories has no counterpart in the model.)
\<close>

definition AgentMemory_init ::
    "'p pathlib \<Rightarrow> clock \<Rightarrow> 'p \<Rightarrow> 'p fs \<Rightarrow> 'p AgentMemory \<times> 'p fs" where
  "AgentMemory_init lib utcnow path fs =
     (let self = \<lparr>memory_path = path, lock_path = with_suffix lib path ''.lock''\<rparr>
      in (self, initialize_memory self utcnow fs))"

subsection \<open>Locking and loading\<close>

text \<open>
  \<^verbatim>\<open>_acquire_lock\<close> opens the lock file for writing, which creates or empties it,
  and takes an advisory lock on it. The kind of lock does not change the files.
  \<^verbatim>\<open>_release_lock\<close> unlocks and closes the file.
\<close>

definition acquire_lock :: "'p AgentMemory \<Rightarrow> bool \<Rightarrow> 'p fs \<Rightarrow> 'p fs" where
  "acquire_lock self exclusive fs = fs(lock_path self \<mapsto> EmptyFile)"

definition release_lock :: "'p AgentMemory \<Rightarrow> 'p fs \<Rightarrow> 'p fs" where
  "release_lock self fs = fs"

text \<open>\<^verbatim>\<open>open(self.memory_path, 'r')\<close> and \<^verbatim>\<open>json.load\<close>.\<close>

definition load :: "'p AgentMemory \<Rightarrow> 'p fs \<Rightarrow> error + memory" where
  "load self fs =
     (case fs (memory_path self) of
        None \<Rightarrow> Inl FileNotFoundError
      | Some EmptyFile \<Rightarrow> Inl JSONDecodeError
      | Some (JsonFile m) \<Rightarrow> Inr m)"

text \<open>\<^verbatim>\<open>open(path, 'w')\<close> and \<^verbatim>\<open>json.dump\<close>.\<close>

definition dump :: "'p \<Rightarrow> memory \<Rightarrow> 'p fs \<Rightarrow> 'p fs" where
  "dump path m fs = fs(path \<mapsto> JsonFile m)"

subsection \<open>\<^verbatim>\<open>record_discovery\<close>\<close>

text \<open>\<^verbatim>\<open>d.setdefault(k, v)\<close>: the value under \<open>k\<close> and the dictionary afterwards.\<close>

definition setdefault :: "('k, 'v) dict \<Rightarrow> 'k \<Rightarrow> 'v \<Rightarrow> 'v \<times> ('k, 'v) dict" where
  "setdefault d k v =
     (case map_of d k of Some x \<Rightarrow> (x, d) | None \<Rightarrow> (v, d @ [(k, v)]))"

text \<open>
  The loop over \<^verbatim>\<open>memory["discoveries"].items()\<close>. Its state is the conflict log,
  the flag \<^verbatim>\<open>conflict_found\<close> and the number of clock reads made so far. The test
  \<^verbatim>\<open>discovery.key in discoveries\<close> and the read \<^verbatim>\<open>discoveries[discovery.key]\<close> are
  the one lookup \<open>map_of ns (key d)\<close>.
\<close>

fun check_conflicts ::
    "clock \<Rightarrow> AgentDiscovery \<Rightarrow> (string, (string, AgentDiscovery) dict) dict \<Rightarrow>
     conflict list \<times> bool \<times> nat \<Rightarrow> conflict list \<times> bool \<times> nat" where
  "check_conflicts utcnow d [] st = st"
| "check_conflicts utcnow d ((other_agent, ns) # rest) (cs, conflict_found, n) =
     (if other_agent \<noteq> agent_id d then
        (case map_of ns (key d) of
           Some existing \<Rightarrow>
             check_conflicts utcnow d rest
               (cs @ [\<lparr>c_key = key d,
                       c_agents = [agent_id d, other_agent],
                       c_values = [val d, val existing],
                       c_timestamp = utcnow n\<rparr>], True, Suc n)
         | None \<Rightarrow> check_conflicts utcnow d rest (cs, conflict_found, n))
      else check_conflicts utcnow d rest (cs, conflict_found, n))"

text \<open>
  The body of \<^verbatim>\<open>record_discovery\<close> between loading and writing: the returned flag
  and the document afterwards. \<^verbatim>\<open>agent_discoveries\<close> is the caller's own namespace
  inside the document, so storing into it changes the document in place.
\<close>

definition record_discovery_body :: "clock \<Rightarrow> AgentDiscovery \<Rightarrow> memory \<Rightarrow> bool \<times> memory" where
  "record_discovery_body utcnow d m =
     (let (agent_discoveries, ds) = setdefault (discoveries m) (agent_id d) [];
          (cs, conflict_found, n) = check_conflicts utcnow d ds (conflicts m, False, 0);
          ds' = AList.update (agent_id d) (AList.update (key d) d agent_discoveries) ds;
          md = (metadata m)\<lparr>last_updated := Some (utcnow n),
                            total_discoveries :=
                              Some (sum_list (map (\<lambda>(a, ns). int (length ns)) ds'))\<rparr>
      in (\<not> conflict_found, m\<lparr>discoveries := ds', conflicts := cs, metadata := md\<rparr>))"

definition record_discovery ::
    "'p AgentMemory \<Rightarrow> clock \<Rightarrow> AgentDiscovery \<Rightarrow> 'p fs \<Rightarrow> (error + bool) \<times> 'p fs" where
  "record_discovery self utcnow d fs =
     (let fs1 = acquire_lock self True fs in
      case load self fs1 of
        Inl e \<Rightarrow> (Inl e, release_lock self fs1)
      | Inr m \<Rightarrow>
          (let (r, m') = record_discovery_body utcnow d m
           in (Inr r, release_lock self (dump (memory_path self) m' fs1))))"

subsection \<open>\<^verbatim>\<open>get_shared_knowledge\<close> and \<^verbatim>\<open>get_conflicts\<close>\<close>

text \<open>
  \<^verbatim>\<open>get_shared_knowledge\<close> returns either one agent's namespace or the whole
  document. \<^verbatim>\<open>if agent_id:\<close> is false for \<^verbatim>\<open>None\<close> and for the empty string.
\<close>

datatype knowledge =
    AgentKnowledge "(string, AgentDiscovery) dict"
  | AllKnowledge memory

definition get_shared_knowledge_body :: "string option \<Rightarrow> memory \<Rightarrow> knowledge" where
  "get_shared_knowledge_body a m =
     (case a of
        Some w \<Rightarrow>
          (if w \<noteq> [] then
             AgentKnowledge (case map_of (discoveries m) w of Some ns \<Rightarrow> ns | None \<Rightarrow> [])
           else AllKnowledge m)
      | None \<Rightarrow> AllKnowledge m)"

definition get_shared_knowledge ::
    "'p AgentMemory \<Rightarrow> string option \<Rightarrow> 'p fs \<Rightarrow> (error + knowledge) \<times> 'p fs" where
  "get_shared_knowledge self a fs =
     (let fs1 = acquire_lock self False fs in
      case load self fs1 of
        Inl e \<Rightarrow> (Inl e, release_lock self fs1)
      | Inr m \<Rightarrow> (Inr (get_shared_knowledge_body a m), release_lock self fs1))"

definition get_conflicts :: "'p AgentMemory \<Rightarrow> 'p fs \<Rightarrow> (error + conflict list) \<times> 'p fs" where
  "get_conflicts self fs =
     (let fs1 = acquire_lock self False fs in
      case load self fs1 of
        Inl e \<Rightarrow> (Inl e, release_lock self fs1)
      | Inr m \<Rightarrow> (Inr (conflicts m), release_lock self fs1))"

subsection \<open>\<^verbatim>\<open>record_decision\<close>\<close>

definition record_decision_body :: "clock \<Rightarrow> string \<Rightarrow> json \<Rightarrow> string \<Rightarrow> memory \<Rightarrow> memory" where
  "record_decision_body utcnow k dec who m =
     m\<lparr>decisions :=
         AList.update k \<lparr>decision = dec, decided_by = who, d_timestamp = utcnow 0\<rparr>
           (decisions m)\<rparr>"

definition record_decision ::
    "'p AgentMemory \<Rightarrow> clock \<Rightarrow> string \<Rightarrow> json \<Rightarrow> string \<Rightarrow> 'p fs \<Rightarrow> (error + unit) \<times> 'p fs" where
  "record_decision self utcnow k dec who fs =
     (let fs1 = acquire_lock self True fs in
      case load self fs1 of
        Inl e \<Rightarrow> (Inl e, release_lock self fs1)
      | Inr m \<Rightarrow>
          (Inr (), release_lock self
                     (dump (memory_path self) (record_decision_body utcnow k dec who m) fs1)))"

subsection \<open>\<^verbatim>\<open>get_agent_summary\<close>\<close>

record agent_summary =
  discovery_count :: int
  last_activity :: string

record summary =
  total_agents :: int
  s_total_discoveries :: int
  total_conflicts :: int
  total_decisions :: int
  agents :: "(string, agent_summary) dict"

text \<open>
  \<^verbatim>\<open>max(..., default="Never")\<close> over the timestamps of a namespace; Python compares
  strings character by character.
\<close>

definition max_default :: "string list \<Rightarrow> string \<Rightarrow> string" where
  "max_default xs dflt = (case xs of [] \<Rightarrow> dflt | x # rest \<Rightarrow> fold max rest x)"

definition get_agent_summary_body :: "memory \<Rightarrow> summary" where
  "get_agent_summary_body m =
     \<lparr>total_agents = int (length (discoveries m)),
      s_total_discoveries =
        (case total_discoveries (metadata m) of Some t \<Rightarrow> t | None \<Rightarrow> 0),
      total_conflicts = int (length (conflicts m)),
      total_decisions = int (length (decisions m)),
      agents =
        fold (\<lambda>(a, ns) acc.
                AList.update a
                  \<lparr>discovery_count = int (length ns),
                   last_activity = max_default (map (\<lambda>(k, e). timestamp e) ns) ''Never''\<rparr>
                  acc)
             (discoveries m) []\<rparr>"

definition get_agent_summary :: "'p AgentMemory \<Rightarrow> 'p fs \<Rightarrow> (error + summary) \<times> 'p fs" where
  "get_agent_summary self fs =
     (let fs1 = acquire_lock self False fs in
      case load self fs1 of
        Inl e \<Rightarrow> (Inl e, release_lock self fs1)
      | Inr m \<Rightarrow> (Inr (get_agent_summary_body m), release_lock self fs1))"

subsection \<open>\<^verbatim>\<open>checkpoint\<close>\<close>








section \<open>Sequences of calls\<close>

text \<open>
  Claims about what holds after any number of calls are stated over lists of calls, run
  one after the other on the file system. Each call comes with its own clock.
\<close>

fun record_all :: "'p AgentMemory \<Rightarrow> (clock \<times> AgentDiscovery) list \<Rightarrow> 'p fs \<Rightarrow> 'p fs" where
  "record_all self [] fs = fs"
| "record_all self ((utcnow, d) # calls) fs =
     record_all self calls (snd (record_discovery self utcnow d fs))"

datatype call =
    RecordDiscovery clock AgentDiscovery
  | RecordDecision clock string json string

fun run_call :: "'p AgentMemory \<Rightarrow> call \<Rightarrow> 'p fs \<Rightarrow> 'p fs" where
  "run_call self (RecordDiscovery utcnow d) fs = snd (record_discovery self utcnow d fs)"
| "run_call self (RecordDecision utcnow k dec who) fs =
     snd (record_decision self utcnow k dec who fs)"

fun run_calls :: "'p AgentMemory \<Rightarrow> call list \<Rightarrow> 'p fs \<Rightarrow> 'p fs" where
  "run_calls self [] fs = fs"
| "run_calls self (c # calls) fs = run_calls self calls (run_call self c fs)"

text \<open>The keys passed to \<^verbatim>\<open>record_decision\<close> by a list of calls.\<close>

fun decision_keys :: "call list \<Rightarrow> string list" where
  "decision_keys [] = []"
| "decision_keys (RecordDecision utcnow k dec who # calls) = k # decision_keys calls"
| "decision_keys (RecordDiscovery utcnow d # calls) = decision_keys calls"

section \<open>Notions used in the proofs\<close>

text \<open>
  \<open>holders d ds\<close> lists, in the order of the dictionary \<open>ds\<close>, the agents other than
  the author of \<open>d\<close> whose namespace has the key of \<open>d\<close>, each with the entry it holds.
\<close>

fun holders ::
    "AgentDiscovery \<Rightarrow> (string, (string, AgentDiscovery) dict) dict \<Rightarrow>
     (string \<times> AgentDiscovery) list" where
  "holders d [] = []"
| "holders d ((w, ns) # rest) =
     (if w \<noteq> agent_id d then
        (case map_of ns (key d) of
           Some e \<Rightarrow> (w, e) # holders d rest
         | None \<Rightarrow> holders d rest)
      else holders d rest)"

text \<open>The conflict entries for a list of holders, the first one stamped by clock read \<open>n\<close>.\<close>

definition conflict_entries ::
    "clock \<Rightarrow> AgentDiscovery \<Rightarrow> nat \<Rightarrow> (string \<times> AgentDiscovery) list \<Rightarrow> conflict list" where
  "conflict_entries utcnow d n hs =
     map (\<lambda>(i, (w, e)). \<lparr>c_key = key d, c_agents = [agent_id d, w],
                          c_values = [val d, val e], c_timestamp = utcnow i\<rparr>)
         (enumerate n hs)"

text \<open>The dictionary of namespaces after \<open>d\<close> has been stored under its author.\<close>

definition stored ::
    "AgentDiscovery \<Rightarrow> (string, (string, AgentDiscovery) dict) dict \<Rightarrow>
     (string, (string, AgentDiscovery) dict) dict" where
  "stored d ds =
     AList.update (agent_id d)
       (AList.update (key d) d (case map_of ds (agent_id d) of Some ns \<Rightarrow> ns | None \<Rightarrow> []))
       ds"

text \<open>
  What Python guarantees of the two levels of dictionaries under \<^verbatim>\<open>"discoveries"\<close>:
  no agent occurs twice, and no key occurs twice in a namespace.
\<close>

definition dict_ok :: "(string, (string, AgentDiscovery) dict) dict \<Rightarrow> bool" where
  "dict_ok ds \<longleftrightarrow> distinct (map fst ds) \<and> list_all (\<lambda>(w, ns). distinct (map fst ns)) ds"

text \<open>The sum, over the namespaces, of the number of distinct keys of each.\<close>

definition key_total :: "(string, (string, AgentDiscovery) dict) dict \<Rightarrow> int" where
  "key_total ds = (\<Sum>(w, ns)\<leftarrow>ds. int (card (fst ` set ns)))"

section \<open>Example data\<close>

text \<open>
  The discovery that \<^verbatim>\<open>example_agent_workflow\<close> records for an agent, the store of the
  demo in \<^verbatim>\<open>__main__\<close>, and a clock.
\<close>

definition example_value :: json where
  "example_value =
     JObj [(''pattern'', JStr ''/api/v1/{resource}/{id}''),
           (''methods'', JArr [JStr ''GET'', JStr ''POST'', JStr ''PUT'', JStr ''DELETE''])]"

definition example_discovery :: "string \<Rightarrow> string \<Rightarrow> AgentDiscovery" where
  "example_discovery a now =
     \<lparr>agent_id = a, key = ''api_endpoint_pattern'', val = example_value, timestamp = now,
      confidence = 0x3FEE666666666666, tags = [''api'', ''rest'', ''pattern'']\<rparr>"

definition demo_store :: "string list AgentMemory" where
  "demo_store = \<lparr>memory_path = [''demo_memory.json''], lock_path = [''demo_memory.lock'']\<rparr>"





definition demo_clock :: clock where
  "demo_clock i = ''2024-01-01T00:00:00''"

text \<open>The demo document after \<^verbatim>\<open>frontend_agent\<close> has recorded its discovery.\<close>

definition demo_memory1 :: memory where
  "demo_memory1 =
     \<lparr>discoveries =
        [(''frontend_agent'',
          [(''api_endpoint_pattern'', example_discovery ''frontend_agent'' ''2024-01-01T00:00:00'')])],
      conflicts = [], decisions = [],
      metadata = \<lparr>created = ''2024-01-01T00:00:00'', version = ''1.0'',
                  last_updated = Some ''2024-01-01T00:00:00'',
                  total_discoveries = Some 1, checkpoint_name = None,
                  checkpoint_time = None\<rparr>\<rparr>"

text \<open>
  The document after \<^verbatim>\<open>backend_agent\<close> has then recorded the same key with the same
  value, as the demo does.
\<close>

definition demo_memory2 :: memory where
  "demo_memory2 =
     \<lparr>discoveries =
        [(''frontend_agent'',
          [(''api_endpoint_pattern'', example_discovery ''frontend_agent'' ''2024-01-01T00:00:00'')]),
         (''backend_agent'',
          [(''api_endpoint_pattern'', example_discovery ''backend_agent'' ''2024-01-01T00:00:00'')])],
      conflicts =
        [\<lparr>c_key = ''api_endpoint_pattern'',
          c_agents = [''backend_agent'', ''frontend_agent''],
          c_values = [example_value, example_value],
          c_timestamp = ''2024-01-01T00:00:00''\<rparr>],
      decisions = [],
      metadata = \<lparr>created = ''2024-01-01T00:00:00'', version = ''1.0'',
                  last_updated = Some ''2024-01-01T00:00:00'',
                  total_discoveries = Some 2, checkpoint_name = None,
                  checkpoint_time = None\<rparr>\<rparr>"

section \<open>The conflict loop\<close>

lemma conflict_entries_Nil [simp]: "conflict_entries u d n [] = []"
  by (simp add: conflict_entries_def)

lemma conflict_entries_Cons [simp]:
  "conflict_entries u d n ((w, e) # hs) =
     \<lparr>c_key = key d, c_agents = [agent_id d, w], c_values = [val d, val e], c_timestamp = u n\<rparr>
       # conflict_entries u d (Suc n) hs"
  by (simp add: conflict_entries_def)

lemma length_conflict_entries [simp]: "length (conflict_entries u d n hs) = length hs"
  by (simp add: conflict_entries_def)

lemma check_conflicts_eq:
  "check_conflicts u d ds (cs, f, n) =
     (cs @ conflict_entries u d n (holders d ds), f \<or> holders d ds \<noteq> [],
      n + length (holders d ds))"
proof (induction ds arbitrary: cs f n)
  case Nil
  show ?case by simp
next
  case (Cons p ds)
  obtain w ns where p: "p = (w, ns)" by (cases p)
  show ?case
    by (cases "map_of ns (key d)") (simp_all add: p Cons.IH)
qed

lemma holders_append [simp]: "holders d (xs @ ys) = holders d xs @ holders d ys"
  by (induction xs) (auto split: option.splits)

lemma set_holders:
  "set (holders d ds) =
     {(w, e). \<exists>ns. (w, ns) \<in> set ds \<and> w \<noteq> agent_id d \<and> map_of ns (key d) = Some e}"
proof (induction ds)
  case Nil
  show ?case by simp
next
  case (Cons p ds)
  obtain w ns where p: "p = (w, ns)" by (cases p)
  show ?case
  proof (cases "w \<noteq> agent_id d")
    case False
    then show ?thesis by (auto simp: p Cons.IH)
  next
    case True
    show ?thesis
    proof (cases "map_of ns (key d)")
      case None
      with True show ?thesis by (auto simp: p Cons.IH)
    next
      case (Some e)
      with True show ?thesis by (auto simp: p Cons.IH)
    qed
  qed
qed

lemma in_keys_iff: "k \<in> fst ` set ns \<longleftrightarrow> (\<exists>e. map_of ns k = Some e)"
  by (metis map_of_eq_None_iff not_None_eq)

lemma holders_eq_Nil_iff:
  "holders d ds = [] \<longleftrightarrow> (\<forall>(w, ns) \<in> set ds. w \<noteq> agent_id d \<longrightarrow> key d \<notin> fst ` set ns)"
proof -
  have "holders d ds = [] \<longleftrightarrow> set (holders d ds) = {}" by simp
  also have "\<dots> \<longleftrightarrow> (\<forall>(w, ns) \<in> set ds. w \<noteq> agent_id d \<longrightarrow> map_of ns (key d) = None)"
    unfolding set_holders by (auto, metis option.exhaust)
  also have "\<dots> \<longleftrightarrow> (\<forall>(w, ns) \<in> set ds. w \<noteq> agent_id d \<longrightarrow> key d \<notin> fst ` set ns)"
    by (simp add: map_of_eq_None_iff)
  finally show ?thesis .
qed

lemma fst_holders_subset: "fst ` set (holders d ds) \<subseteq> fst ` set ds"
  unfolding set_holders by force

lemma distinct_holders: "distinct (map fst ds) \<Longrightarrow> distinct (map fst (holders d ds))"
proof (induction ds)
  case Nil
  show ?case by simp
next
  case (Cons p ds)
  obtain w ns where p: "p = (w, ns)" by (cases p)
  from Cons.prems have w: "w \<notin> fst ` set ds" and dd: "distinct (map fst ds)"
    by (auto simp: p)
  from w fst_holders_subset[of d ds] have "w \<notin> fst ` set (holders d ds)" by blast
  with Cons.IH[OF dd] show ?case
    by (auto simp: p split: option.splits)
qed

lemma fst_set_holders:
  assumes "distinct (map fst ds)"
  shows "fst ` set (holders d ds) =
         {w. w \<noteq> agent_id d \<and> (\<exists>ns. map_of ds w = Some ns \<and> key d \<in> fst ` set ns)}"
proof (rule set_eqI)
  fix w
  have "w \<in> fst ` set (holders d ds) \<longleftrightarrow>
        (\<exists>e ns. (w, ns) \<in> set ds \<and> w \<noteq> agent_id d \<and> map_of ns (key d) = Some e)"
    unfolding set_holders by force
  also have "\<dots> \<longleftrightarrow> w \<noteq> agent_id d \<and>
        (\<exists>ns. map_of ds w = Some ns \<and> key d \<in> fst ` set ns)"
    using assms by (auto simp: in_keys_iff)
  finally show "w \<in> fst ` set (holders d ds) \<longleftrightarrow>
        w \<in> {w. w \<noteq> agent_id d \<and> (\<exists>ns. map_of ds w = Some ns \<and> key d \<in> fst ` set ns)}"
    by simp
qed

lemma length_holders_card:
  assumes "distinct (map fst ds)"
  shows "length (holders d ds) =
         card {w. w \<noteq> agent_id d \<and> (\<exists>ns. map_of ds w = Some ns \<and> key d \<in> fst ` set ns)}"
proof -
  have "card {w. w \<noteq> agent_id d \<and> (\<exists>ns. map_of ds w = Some ns \<and> key d \<in> fst ` set ns)}
        = card (set (map fst (holders d ds)))"
    by (simp add: fst_set_holders[OF assms])
  also have "\<dots> = length (map fst (holders d ds))"
    by (rule distinct_card) (rule distinct_holders[OF assms])
  finally show ?thesis by simp
qed

lemma update_append_absent:
  "map_of ds k = None \<Longrightarrow> AList.update k v (ds @ [(k, w)]) = AList.update k v ds"
  by (induction ds) (auto split: if_splits)

lemma record_discovery_body_eq:
  "record_discovery_body u d m =
     (holders d (discoveries m) = [],
      m\<lparr>discoveries := stored d (discoveries m),
        conflicts := conflicts m @ conflict_entries u d 0 (holders d (discoveries m)),
        metadata := (metadata m)\<lparr>
           last_updated := Some (u (length (holders d (discoveries m)))),
           total_discoveries :=
             Some (\<Sum>(a, ns)\<leftarrow>stored d (discoveries m). int (length ns))\<rparr>\<rparr>)"
proof (cases "map_of (discoveries m) (agent_id d)")
  case None
  then show ?thesis
    by (simp add: record_discovery_body_def setdefault_def check_conflicts_eq stored_def
        update_append_absent Let_def)
next
  case (Some ns)
  then show ?thesis
    by (simp add: record_discovery_body_def setdefault_def check_conflicts_eq stored_def Let_def)
qed

section \<open>The operations on an initialised store\<close>

text \<open>
  The operations below are studied on a store whose lock file is not the document
  itself and whose document is on disk.
\<close>

lemma load_locked:
  assumes "lock_path self \<noteq> memory_path self" and "fs (memory_path self) = Some (JsonFile m)"
  shows "load self (acquire_lock self ex fs) = Inr m"
  using assms by (simp add: load_def acquire_lock_def)

lemma record_discovery_eq:
  assumes "lock_path self \<noteq> memory_path self" and "fs (memory_path self) = Some (JsonFile m)"
  shows "record_discovery self u d fs =
           (Inr (fst (record_discovery_body u d m)),
            fs(lock_path self \<mapsto> EmptyFile,
               memory_path self \<mapsto> JsonFile (snd (record_discovery_body u d m))))"
  using load_locked[of self fs m True, OF assms]
  by (simp add: record_discovery_def Let_def release_lock_def dump_def acquire_lock_def
      split_beta)

lemma in_conflict_entriesD:
  "c \<in> set (conflict_entries u d n hs) \<Longrightarrow>
     \<exists>i w e. (w, e) \<in> set hs \<and>
        c = \<lparr>c_key = key d, c_agents = [agent_id d, w],
             c_values = [val d, val e], c_timestamp = u i\<rparr>"
proof (induction hs arbitrary: n)
  case Nil
  then show ?case by simp
next
  case (Cons h hs)
  obtain w e where h: "h = (w, e)" by (cases h)
  from Cons.prems consider
      (head) "c = \<lparr>c_key = key d, c_agents = [agent_id d, w],
                   c_values = [val d, val e], c_timestamp = u n\<rparr>"
    | (tail) "c \<in> set (conflict_entries u d (Suc n) hs)"
    by (auto simp: h)
  then show ?case
  proof cases
    case head
    then show ?thesis
      unfolding h by (intro exI[of _ n] exI[of _ w] exI[of _ e]) simp
  next
    case tail
    from Cons.IH[OF tail] show ?thesis by auto
  qed
qed

lemma in_conflict_entriesI:
  "(w, e) \<in> set hs \<Longrightarrow>
     \<exists>t. \<lparr>c_key = key d, c_agents = [agent_id d, w],
           c_values = [val d, val e], c_timestamp = t\<rparr> \<in> set (conflict_entries u d n hs)"
proof (induction hs arbitrary: n)
  case Nil
  then show ?case by simp
next
  case (Cons h hs)
  obtain w' e' where h: "h = (w', e')" by (cases h)
  show ?case
  proof (cases "(w, e) = (w', e')")
    case True
    then show ?thesis unfolding h by (intro exI[of _ "u n"]) simp
  next
    case False
    with Cons.prems have "(w, e) \<in> set hs" by (auto simp: h)
    from Cons.IH[OF this, of "Suc n"] show ?thesis unfolding h by auto
  qed
qed

lemma agents_conflict_entries:
  "map c_agents (conflict_entries u d n hs) = map (\<lambda>w. [agent_id d, w]) (map fst hs)"
  by (induction hs arbitrary: n) auto

section \<open>Recording a discovery\<close>

text \<open>
  Claim C1. On an initialised store, \<^verbatim>\<open>record_discovery\<close> returns true exactly when
  no namespace of another agent in the document read by the call has the key of the
  discovery; the document is written back beside the emptied lock file. Whenever it
  returns true (in particular for a key that no agent has recorded yet) the conflict log
  is left as it was.
\<close>

theorem record_discovery_true_iff_key_novel:
  assumes "lock_path self \<noteq> memory_path self"
    and "fs (memory_path self) = Some (JsonFile m)"
  shows "\<exists>m'. record_discovery self utcnow d fs =
                 (Inr (\<forall>(w, ns) \<in> set (discoveries m).
                          w \<noteq> agent_id d \<longrightarrow> key d \<notin> fst ` set ns),
                  fs(lock_path self \<mapsto> EmptyFile, memory_path self \<mapsto> JsonFile m'))
             \<and> ((\<forall>(w, ns) \<in> set (discoveries m).
                          w \<noteq> agent_id d \<longrightarrow> key d \<notin> fst ` set ns)
                  \<longrightarrow> conflicts m' = conflicts m)"
proof -
  let ?r = "record_discovery_body utcnow d m"
  have run: "record_discovery self utcnow d fs =
      (Inr (fst ?r), fs(lock_path self \<mapsto> EmptyFile, memory_path self \<mapsto> JsonFile (snd ?r)))"
    by (rule record_discovery_eq) (fact assms)+
  have flag: "fst ?r \<longleftrightarrow>
      (\<forall>(w, ns) \<in> set (discoveries m). w \<noteq> agent_id d \<longrightarrow> key d \<notin> fst ` set ns)"
    by (simp add: record_discovery_body_eq holders_eq_Nil_iff)
  have same: "fst ?r \<longrightarrow> conflicts (snd ?r) = conflicts m"
    by (simp add: record_discovery_body_eq)
  from run flag same show ?thesis
    by (intro exI[of _ "snd ?r"]) simp
qed

theorem record_discovery_true_iff_key_novel_witness:
  "lock_path demo_store \<noteq> memory_path demo_store
   \<and> (initialize_memory demo_store demo_clock Map.empty) (memory_path demo_store)
       = Some (JsonFile (fresh_memory (demo_clock 0)))
   \<and> fst (record_discovery demo_store demo_clock
            (example_discovery ''frontend_agent'' ''2024-01-01T00:00:00'')
            (initialize_memory demo_store demo_clock Map.empty)) = Inr True"
  using record_discovery_true_iff_key_novel
    [of demo_store "initialize_memory demo_store demo_clock Map.empty"
        "fresh_memory (demo_clock 0)" demo_clock
        "example_discovery ''frontend_agent'' ''2024-01-01T00:00:00''"]
  by (auto simp add: demo_store_def initialize_memory_def fresh_memory_def)

text \<open>
  Claim C2. If the key of the discovery is in the namespaces of exactly \<open>N \<ge> 1\<close> other
  agents, one call of \<^verbatim>\<open>record_discovery\<close> returns false and appends exactly \<open>N\<close>
  entries to the conflict log, one for each of these agents. Each entry has the key, the
  agents in the order new, existing, and the values in the order new, existing.
\<close>

theorem record_discovery_one_conflict_per_holder:
  assumes "lock_path self \<noteq> memory_path self"
    and "fs (memory_path self) = Some (JsonFile m)"
    and "distinct (map fst (discoveries m))"
    and "N = card {w. w \<noteq> agent_id d \<and>
                     (\<exists>ns. map_of (discoveries m) w = Some ns \<and> key d \<in> fst ` set ns)}"
    and "1 \<le> N"
  shows "\<exists>m' new.
           record_discovery self utcnow d fs =
             (Inr False, fs(lock_path self \<mapsto> EmptyFile, memory_path self \<mapsto> JsonFile m'))
         \<and> conflicts m' = conflicts m @ new
         \<and> length new = N
         \<and> (\<forall>c \<in> set new.
               c_key c = key d \<and>
               (\<exists>w ns e. w \<noteq> agent_id d \<and> map_of (discoveries m) w = Some ns \<and>
                   map_of ns (key d) = Some e \<and>
                   c_agents c = [agent_id d, w] \<and> c_values c = [val d, val e]))
         \<and> distinct (map c_agents new)
         \<and> set (map c_agents new) =
             (\<lambda>w. [agent_id d, w]) `
               {w. w \<noteq> agent_id d \<and>
                   (\<exists>ns. map_of (discoveries m) w = Some ns \<and> key d \<in> fst ` set ns)}"
proof -
  let ?r = "record_discovery_body utcnow d m"
  let ?hs = "holders d (discoveries m)"
  let ?new = "conflict_entries utcnow d 0 ?hs"
  have run: "record_discovery self utcnow d fs =
      (Inr (fst ?r), fs(lock_path self \<mapsto> EmptyFile, memory_path self \<mapsto> JsonFile (snd ?r)))"
    by (rule record_discovery_eq) (fact assms)+
  have len: "length ?hs = N"
    using assms(4) by (simp add: length_holders_card[OF assms(3)])
  with assms(5) have "?hs \<noteq> []" by auto
  then have flag: "fst ?r = False"
    by (simp add: record_discovery_body_eq)
  have app: "conflicts (snd ?r) = conflicts m @ ?new"
    by (simp add: record_discovery_body_eq)
  have each: "\<forall>c \<in> set ?new.
               c_key c = key d \<and>
               (\<exists>w ns e. w \<noteq> agent_id d \<and> map_of (discoveries m) w = Some ns \<and>
                   map_of ns (key d) = Some e \<and>
                   c_agents c = [agent_id d, w] \<and> c_values c = [val d, val e])"
  proof
    fix c assume "c \<in> set ?new"
    then obtain i w e where we: "(w, e) \<in> set ?hs"
      and c: "c = \<lparr>c_key = key d, c_agents = [agent_id d, w],
                  c_values = [val d, val e], c_timestamp = utcnow i\<rparr>"
      by (blast dest: in_conflict_entriesD)
    from we obtain ns where "(w, ns) \<in> set (discoveries m)" "w \<noteq> agent_id d"
      "map_of ns (key d) = Some e"
      unfolding set_holders by auto
    with assms(3) c show "c_key c = key d \<and>
               (\<exists>w ns e. w \<noteq> agent_id d \<and> map_of (discoveries m) w = Some ns \<and>
                   map_of ns (key d) = Some e \<and>
                   c_agents c = [agent_id d, w] \<and> c_values c = [val d, val e])"
      by auto
  qed
  have d1: "distinct (map fst ?hs)"
    by (rule distinct_holders[OF assms(3)])
  have "inj_on (\<lambda>w. [agent_id d, w]) (set (map fst ?hs))"
    by (simp add: inj_on_def)
  with d1 have "distinct (map (\<lambda>w. [agent_id d, w]) (map fst ?hs))"
    by (rule iffD2[OF distinct_map, OF conjI])
  then have dist: "distinct (map c_agents ?new)"
    by (simp only: agents_conflict_entries)
  have sets: "set (map c_agents ?new) = (\<lambda>w. [agent_id d, w]) `
               {w. w \<noteq> agent_id d \<and>
                   (\<exists>ns. map_of (discoveries m) w = Some ns \<and> key d \<in> fst ` set ns)}"
    unfolding fst_set_holders[OF assms(3), symmetric]
    by (simp add: agents_conflict_entries image_image)
  from run flag app len each dist sets show ?thesis
    by (intro exI[of _ "snd ?r"] exI[of _ ?new]) simp
qed

theorem record_discovery_one_conflict_per_holder_witness:
  "lock_path demo_store \<noteq> memory_path demo_store
   \<and> [memory_path demo_store \<mapsto> JsonFile demo_memory2] (memory_path demo_store)
        = Some (JsonFile demo_memory2)
   \<and> distinct (map fst (discoveries demo_memory2))
   \<and> (2::nat) = card {w. w \<noteq> agent_id (example_discovery ''qa_agent'' ''2024-01-02T00:00:00'') \<and>
                     (\<exists>ns. map_of (discoveries demo_memory2) w = Some ns \<and>
                        key (example_discovery ''qa_agent'' ''2024-01-02T00:00:00'') \<in> fst ` set ns)}
   \<and> fst (record_discovery demo_store demo_clock
            (example_discovery ''qa_agent'' ''2024-01-02T00:00:00'')
            [memory_path demo_store \<mapsto> JsonFile demo_memory2]) = Inr False"
proof -
  let ?d = "example_discovery ''qa_agent'' ''2024-01-02T00:00:00''"
  have h1: "lock_path demo_store \<noteq> memory_path demo_store"
    by (simp add: demo_store_def)
  have h2: "[memory_path demo_store \<mapsto> JsonFile demo_memory2] (memory_path demo_store)
        = Some (JsonFile demo_memory2)"
    by simp
  have h3: "distinct (map fst (discoveries demo_memory2))"
    by (simp add: demo_memory2_def)
  have "{w. w \<noteq> agent_id ?d \<and>
           (\<exists>ns. map_of (discoveries demo_memory2) w = Some ns \<and> key ?d \<in> fst ` set ns)}
        = {''frontend_agent'', ''backend_agent''}"
    by (auto simp: demo_memory2_def example_discovery_def split: if_splits)
  then have h4: "(2::nat) = card {w. w \<noteq> agent_id ?d \<and>
           (\<exists>ns. map_of (discoveries demo_memory2) w = Some ns \<and> key ?d \<in> fst ` set ns)}"
    by simp
  have h5: "(1::nat) \<le> 2" by simp
  from record_discovery_one_conflict_per_holder
         [where self = demo_store and m = demo_memory2 and d = "?d" and N = 2
            and fs = "[memory_path demo_store \<mapsto> JsonFile demo_memory2]"
            and utcnow = demo_clock, OF h1 h2 h3 h4 h5]
  have "fst (record_discovery demo_store demo_clock ?d
            [memory_path demo_store \<mapsto> JsonFile demo_memory2]) = Inr False"
    by auto
  with h1 h2 h3 h4 show ?thesis by blast
qed

text \<open>
  Claim C3 says that a conflict is logged only when the other agent holds a different
  value. The source never compares values. In the demo of \<^verbatim>\<open>__main__\<close>, on a freshly
  initialised store, \<^verbatim>\<open>frontend_agent\<close> records a key, which succeeds, and
  \<^verbatim>\<open>backend_agent\<close> then records the same key with the same value: the call returns
  false and a conflict with two equal values is logged.
\<close>

theorem same_value_conflict_counterexample:
  "record_discovery demo_store demo_clock
        (example_discovery ''frontend_agent'' ''2024-01-01T00:00:00'')
        (initialize_memory demo_store demo_clock Map.empty) =
       (Inr True,
        [memory_path demo_store \<mapsto> JsonFile demo_memory1,
         lock_path demo_store \<mapsto> EmptyFile])
   \<and> map_of (discoveries demo_memory1) ''frontend_agent'' =
      Some [(''api_endpoint_pattern'',
             example_discovery ''frontend_agent'' ''2024-01-01T00:00:00'')]
   \<and> val (example_discovery ''frontend_agent'' ''2024-01-01T00:00:00'') =
       val (example_discovery ''backend_agent'' ''2024-01-01T00:00:00'')
   \<and> conflicts demo_memory1 = []
   \<and> record_discovery demo_store demo_clock
        (example_discovery ''backend_agent'' ''2024-01-01T00:00:00'')
        [memory_path demo_store \<mapsto> JsonFile demo_memory1,
         lock_path demo_store \<mapsto> EmptyFile] =
       (Inr False,
        [memory_path demo_store \<mapsto> JsonFile demo_memory2,
         lock_path demo_store \<mapsto> EmptyFile])
   \<and> conflicts demo_memory2 =
       [\<lparr>c_key = ''api_endpoint_pattern'',
         c_agents = [''backend_agent'', ''frontend_agent''],
         c_values = [example_value, example_value],
         c_timestamp = ''2024-01-01T00:00:00''\<rparr>]"
  by (simp add: demo_memory1_def demo_memory2_def example_discovery_def demo_store_def
      demo_clock_def record_discovery_def record_discovery_body_def setdefault_def
      acquire_lock_def release_lock_def load_def dump_def Let_def initialize_memory_def
      fresh_memory_def fun_upd_twist)

text \<open>
  Claim C3, amended. \<^verbatim>\<open>record_discovery\<close> logs a conflict whenever another agent's
  namespace has the key, whatever the two values are: for every other agent holding the
  key, an entry with both agents and both values is among the entries appended by the
  call, and the conflict log is unchanged exactly when no other agent holds the key.
\<close>

theorem record_discovery_conflict_whatever_value:
  assumes "lock_path self \<noteq> memory_path self"
    and "fs (memory_path self) = Some (JsonFile m)"
  shows "\<exists>m'. snd (record_discovery self utcnow d fs) (memory_path self) = Some (JsonFile m')
           \<and> (conflicts m' = conflicts m \<longleftrightarrow>
                (\<forall>(w, ns) \<in> set (discoveries m).
                    w \<noteq> agent_id d \<longrightarrow> key d \<notin> fst ` set ns))
           \<and> (\<forall>w ns e. (w, ns) \<in> set (discoveries m) \<and> w \<noteq> agent_id d \<and>
                  map_of ns (key d) = Some e \<longrightarrow>
                  (\<exists>t. \<lparr>c_key = key d, c_agents = [agent_id d, w],
                        c_values = [val d, val e], c_timestamp = t\<rparr>
                       \<in> set (drop (length (conflicts m)) (conflicts m'))))"
proof -
  let ?r = "record_discovery_body utcnow d m"
  let ?hs = "holders d (discoveries m)"
  let ?new = "conflict_entries utcnow d 0 ?hs"
  have run: "record_discovery self utcnow d fs =
      (Inr (fst ?r), fs(lock_path self \<mapsto> EmptyFile, memory_path self \<mapsto> JsonFile (snd ?r)))"
    by (rule record_discovery_eq) (fact assms)+
  have app: "conflicts (snd ?r) = conflicts m @ ?new"
    by (simp add: record_discovery_body_eq)
  have "?new = [] \<longleftrightarrow> ?hs = []"
    using length_conflict_entries[of utcnow d 0 ?hs] by (metis length_0_conv)
  then have unchanged: "conflicts (snd ?r) = conflicts m \<longleftrightarrow>
      (\<forall>(w, ns) \<in> set (discoveries m). w \<noteq> agent_id d \<longrightarrow> key d \<notin> fst ` set ns)"
    by (simp add: app holders_eq_Nil_iff)
  have logged: "\<exists>t. \<lparr>c_key = key d, c_agents = [agent_id d, w],
                      c_values = [val d, val e], c_timestamp = t\<rparr>
                  \<in> set (drop (length (conflicts m)) (conflicts (snd ?r)))"
    if "(w, ns) \<in> set (discoveries m) \<and> w \<noteq> agent_id d \<and> map_of ns (key d) = Some e"
    for w ns e
  proof -
    from that have "(w, e) \<in> set ?hs" unfolding set_holders by auto
    from in_conflict_entriesI[OF this, of d utcnow 0] show ?thesis by (simp add: app)
  qed
  have onfile: "snd (record_discovery self utcnow d fs) (memory_path self)
                = Some (JsonFile (snd ?r))"
    by (simp add: run)
  from logged have "\<forall>w ns e. (w, ns) \<in> set (discoveries m) \<and> w \<noteq> agent_id d \<and>
                  map_of ns (key d) = Some e \<longrightarrow>
                  (\<exists>t. \<lparr>c_key = key d, c_agents = [agent_id d, w],
                        c_values = [val d, val e], c_timestamp = t\<rparr>
                       \<in> set (drop (length (conflicts m)) (conflicts (snd ?r))))"
    by blast
  with onfile unchanged show ?thesis
    by (intro exI[of _ "snd ?r"] conjI)
qed

theorem record_discovery_conflict_whatever_value_witness:
  "lock_path demo_store \<noteq> memory_path demo_store
   \<and> [memory_path demo_store \<mapsto> JsonFile demo_memory1] (memory_path demo_store)
        = Some (JsonFile demo_memory1)
   \<and> (\<exists>m'. snd (record_discovery demo_store demo_clock
                  (example_discovery ''backend_agent'' ''2024-01-01T00:00:00'')
                  [memory_path demo_store \<mapsto> JsonFile demo_memory1]) (memory_path demo_store)
             = Some (JsonFile m')
           \<and> (\<exists>t. \<lparr>c_key = ''api_endpoint_pattern'',
                    c_agents = [''backend_agent'', ''frontend_agent''],
                    c_values = [example_value, example_value], c_timestamp = t\<rparr>
                  \<in> set (drop (length (conflicts demo_memory1)) (conflicts m'))))"
proof -
  let ?d = "example_discovery ''backend_agent'' ''2024-01-01T00:00:00''"
  let ?e = "example_discovery ''frontend_agent'' ''2024-01-01T00:00:00''"
  let ?fs = "[memory_path demo_store \<mapsto> JsonFile demo_memory1]"
  have h1: "lock_path demo_store \<noteq> memory_path demo_store"
    by (simp add: demo_store_def)
  have h2: "?fs (memory_path demo_store) = Some (JsonFile demo_memory1)"
    by simp
  have held: "(''frontend_agent'', [(''api_endpoint_pattern'', ?e)]) \<in> set (discoveries demo_memory1)
      \<and> ''frontend_agent'' \<noteq> agent_id ?d
      \<and> map_of [(''api_endpoint_pattern'', ?e)] (key ?d) = Some ?e"
    by (simp add: demo_memory1_def example_discovery_def)
  from record_discovery_conflict_whatever_value
         [where self = demo_store and m = demo_memory1 and d = "?d" and fs = "?fs"
            and utcnow = demo_clock, OF h1 h2]
  obtain m' where m': "snd (record_discovery demo_store demo_clock ?d ?fs) (memory_path demo_store)
             = Some (JsonFile m')"
    and all: "\<forall>w ns e. (w, ns) \<in> set (discoveries demo_memory1) \<and> w \<noteq> agent_id ?d \<and>
                  map_of ns (key ?d) = Some e \<longrightarrow>
                  (\<exists>t. \<lparr>c_key = key ?d, c_agents = [agent_id ?d, w],
                        c_values = [val ?d, val e], c_timestamp = t\<rparr>
                       \<in> set (drop (length (conflicts demo_memory1)) (conflicts m')))"
    by blast
  from all held have "\<exists>t. \<lparr>c_key = key ?d, c_agents = [agent_id ?d, ''frontend_agent''],
                        c_values = [val ?d, val ?e], c_timestamp = t\<rparr>
                       \<in> set (drop (length (conflicts demo_memory1)) (conflicts m'))"
    by blast
  then have "\<exists>t. \<lparr>c_key = ''api_endpoint_pattern'',
                    c_agents = [''backend_agent'', ''frontend_agent''],
                    c_values = [example_value, example_value], c_timestamp = t\<rparr>
                  \<in> set (drop (length (conflicts demo_memory1)) (conflicts m'))"
    by (simp add: example_discovery_def)
  with h1 h2 m' show ?thesis by blast
qed

section \<open>The running total of discoveries\<close>

lemma in_set_updateD:
  "p \<in> set (AList.update k v al) \<Longrightarrow> p = (k, v) \<or> p \<in> set al"
  by (induction al) (auto split: if_splits)

lemma dict_ok_Nil: "dict_ok []"
  by (simp add: dict_ok_def)

lemma dict_ok_stored:
  assumes "dict_ok ds"
  shows "dict_ok (stored d ds)"
proof -
  from assms have dist: "distinct (map fst ds)"
    and each: "\<And>w ns. (w, ns) \<in> set ds \<Longrightarrow> distinct (map fst ns)"
    by (auto simp: dict_ok_def list_all_iff)
  let ?old = "case map_of ds (agent_id d) of Some ns \<Rightarrow> ns | None \<Rightarrow> []"
  have "distinct (map fst ?old)"
    by (auto split: option.splits dest: map_of_SomeD each)
  then have new: "distinct (map fst (AList.update (key d) d ?old))"
    by (rule distinct_update)
  have "distinct (map fst ns)" if "(w, ns) \<in> set (stored d ds)" for w ns
    using in_set_updateD[OF that[unfolded stored_def]] new each by auto
  moreover have "distinct (map fst (stored d ds))"
    unfolding stored_def by (rule distinct_update) (rule dist)
  ultimately show ?thesis
    by (auto simp: dict_ok_def list_all_iff)
qed

lemma length_sum_key_total:
  assumes "dict_ok ds"
  shows "(\<Sum>(a, ns)\<leftarrow>ds. int (length ns)) = key_total ds"
proof -
  have "int (length ns) = int (card (fst ` set ns))" if "(a, ns) \<in> set ds" for a ns
  proof -
    from assms that have "distinct (map fst ns)"
      by (auto simp: dict_ok_def list_all_iff)
    then have "card (set (map fst ns)) = length (map fst ns)"
      by (rule distinct_card)
    then show ?thesis by simp
  qed
  then have "map (\<lambda>(a, ns). int (length ns)) ds = map (\<lambda>(w, ns). int (card (fst ` set ns))) ds"
    by (intro map_cong) auto
  then show ?thesis
    unfolding key_total_def by (rule arg_cong[where f = sum_list])
qed

lemma record_discovery_body_total:
  assumes "dict_ok (discoveries m)"
  shows "dict_ok (discoveries (snd (record_discovery_body u d m)))
       \<and> total_discoveries (metadata (snd (record_discovery_body u d m))) =
           Some (key_total (discoveries (snd (record_discovery_body u d m))))"
  using dict_ok_stored[OF assms, of d]
  by (simp add: record_discovery_body_eq length_sum_key_total)

lemma record_all_total:
  assumes "lock_path self \<noteq> memory_path self"
    and "fs (memory_path self) = Some (JsonFile m)"
    and "dict_ok (discoveries m)"
  shows "\<exists>m'. record_all self calls fs (memory_path self) = Some (JsonFile m')
         \<and> dict_ok (discoveries m')
         \<and> (calls = [] \<longrightarrow> m' = m)
         \<and> (calls \<noteq> [] \<longrightarrow>
              total_discoveries (metadata m') = Some (key_total (discoveries m')))"
  using assms(2,3)
proof (induction calls arbitrary: fs m)
  case Nil
  then show ?case by simp
next
  case (Cons c calls)
  obtain u d where c: "c = (u, d)" by (cases c)
  let ?m1 = "snd (record_discovery_body u d m)"
  let ?fs1 = "snd (record_discovery self u d fs)"
  have f1: "?fs1 (memory_path self) = Some (JsonFile ?m1)"
    by (simp add: record_discovery_eq[of self fs m, OF assms(1) Cons.prems(1)])
  from record_discovery_body_total[OF Cons.prems(2), of u d]
  have ok1: "dict_ok (discoveries ?m1)"
    and t1: "total_discoveries (metadata ?m1) = Some (key_total (discoveries ?m1))"
    by simp_all
  from Cons.IH[of ?fs1 ?m1, OF f1 ok1] obtain m' where
    m': "record_all self calls ?fs1 (memory_path self) = Some (JsonFile m')"
    "dict_ok (discoveries m')" "calls = [] \<longrightarrow> m' = ?m1"
    "calls \<noteq> [] \<longrightarrow> total_discoveries (metadata m') = Some (key_total (discoveries m'))"
    by blast
  with t1 have "total_discoveries (metadata m') = Some (key_total (discoveries m'))"
    by (cases "calls = []") auto
  with m' show ?case by (auto simp: c)
qed

lemma get_agent_summary_eq:
  assumes "lock_path self \<noteq> memory_path self" and "fs (memory_path self) = Some (JsonFile m)"
  shows "get_agent_summary self fs =
           (Inr (get_agent_summary_body m), fs(lock_path self \<mapsto> EmptyFile))"
  using load_locked[of self fs m False, OF assms]
  by (simp add: get_agent_summary_def Let_def release_lock_def acquire_lock_def)

text \<open>
  Claim C4. Start from a path with no file, initialise the store and run any list of
  \<^verbatim>\<open>record_discovery\<close> calls. The document then has one namespace per agent, and
  after at least one call its \<^verbatim>\<open>metadata.total_discoveries\<close> is the sum, over the
  namespaces, of the number of distinct keys of each. Before the first call the field is
  absent and the sum is 0; \<^verbatim>\<open>get_agent_summary\<close>, which reads an absent field as 0,
  reports the sum after any list of calls, the empty one included.
\<close>

theorem total_discoveries_counts_keys:
  assumes "lock_path self \<noteq> memory_path self"
    and "fs (memory_path self) = None"
  shows "\<exists>m s.
           record_all self calls (initialize_memory self init_clock fs) (memory_path self)
             = Some (JsonFile m)
         \<and> distinct (map fst (discoveries m))
         \<and> (calls \<noteq> [] \<longrightarrow>
              total_discoveries (metadata m) =
                Some (\<Sum>(w, ns)\<leftarrow>discoveries m. int (card (fst ` set ns))))
         \<and> fst (get_agent_summary self
                  (record_all self calls (initialize_memory self init_clock fs))) = Inr s
         \<and> s_total_discoveries s = (\<Sum>(w, ns)\<leftarrow>discoveries m. int (card (fst ` set ns)))"
proof -
  let ?fs0 = "initialize_memory self init_clock fs"
  let ?m0 = "fresh_memory (init_clock 0)"
  have f0: "?fs0 (memory_path self) = Some (JsonFile ?m0)"
    using assms(2) by (simp add: initialize_memory_def)
  have ok0: "dict_ok (discoveries ?m0)"
    by (simp add: fresh_memory_def dict_ok_Nil)
  from record_all_total[of self ?fs0 ?m0 calls, OF assms(1) f0 ok0] obtain m where
    m: "record_all self calls ?fs0 (memory_path self) = Some (JsonFile m)"
    "dict_ok (discoveries m)" "calls = [] \<longrightarrow> m = ?m0"
    "calls \<noteq> [] \<longrightarrow> total_discoveries (metadata m) = Some (key_total (discoveries m))"
    by blast
  have s: "get_agent_summary self (record_all self calls ?fs0) =
      (Inr (get_agent_summary_body m),
       (record_all self calls ?fs0)(lock_path self \<mapsto> EmptyFile))"
    by (rule get_agent_summary_eq) (fact assms(1) m(1))+
  have "s_total_discoveries (get_agent_summary_body m) = key_total (discoveries m)"
  proof (cases "calls = []")
    case True
    with m(3) show ?thesis
      by (simp add: get_agent_summary_body_def fresh_memory_def key_total_def)
  next
    case False
    with m(4) show ?thesis by (simp add: get_agent_summary_body_def)
  qed
  with m s show ?thesis
    by (intro exI[of _ m] exI[of _ "get_agent_summary_body m"])
       (simp add: key_total_def dict_ok_def)
qed

theorem total_discoveries_counts_keys_witness:
  "lock_path demo_store \<noteq> memory_path demo_store
   \<and> (Map.empty :: string list fs) (memory_path demo_store) = None
   \<and> (\<exists>m. record_all demo_store
             [(demo_clock, example_discovery ''frontend_agent'' ''2024-01-01T00:00:00''),
              (demo_clock, example_discovery ''backend_agent'' ''2024-01-01T00:00:00'')]
             (initialize_memory demo_store demo_clock Map.empty) (memory_path demo_store)
            = Some (JsonFile m)
         \<and> total_discoveries (metadata m) =
              Some (\<Sum>(w, ns)\<leftarrow>discoveries m. int (card (fst ` set ns))))"
proof -
  have h1: "lock_path demo_store \<noteq> memory_path demo_store"
    by (simp add: demo_store_def)
  have h2: "(Map.empty :: string list fs) (memory_path demo_store) = None"
    by simp
  from total_discoveries_counts_keys
         [where self = demo_store and fs = Map.empty and init_clock = demo_clock
            and calls = "[(demo_clock, example_discovery ''frontend_agent'' ''2024-01-01T00:00:00''),
              (demo_clock, example_discovery ''backend_agent'' ''2024-01-01T00:00:00'')]",
          OF h1 h2]
  show ?thesis using h1 h2 by auto
qed

section \<open>Initialisation is idempotent\<close>

text \<open>
  Claim C6. Initialising twice gives the same files as initialising once, on a fresh
  path as on any other, whatever the clocks of the two calls say; where the path has a
  file already, initialising changes nothing. The same holds for the constructor.
\<close>

theorem initialize_memory_idempotent:
  "initialize_memory self clock2 (initialize_memory self clock1 fs)
     = initialize_memory self clock1 fs
   \<and> (fs (memory_path self) \<noteq> None \<longrightarrow> initialize_memory self clock1 fs = fs)
   \<and> AgentMemory_init lib clock2 path (snd (AgentMemory_init lib clock1 path fs))
     = AgentMemory_init lib clock1 path fs"
  by (simp add: initialize_memory_def AgentMemory_init_def Let_def)

theorem initialize_memory_idempotent_witness:
  "[memory_path demo_store \<mapsto> JsonFile demo_memory2] (memory_path demo_store) \<noteq> None
   \<and> initialize_memory demo_store demo_clock [memory_path demo_store \<mapsto> JsonFile demo_memory2]
       = [memory_path demo_store \<mapsto> JsonFile demo_memory2]"
  using initialize_memory_idempotent
          [where self = demo_store and fs = "[memory_path demo_store \<mapsto> JsonFile demo_memory2]"
             and ?clock1.0 = demo_clock]
  by simp

section \<open>Reading shared knowledge\<close>

lemma get_shared_knowledge_eq:
  assumes "lock_path self \<noteq> memory_path self" and "fs (memory_path self) = Some (JsonFile m)"
  shows "get_shared_knowledge self a fs =
           (Inr (get_shared_knowledge_body a m), fs(lock_path self \<mapsto> EmptyFile))"
  using load_locked[of self fs m False, OF assms]
  by (simp add: get_shared_knowledge_def Let_def release_lock_def acquire_lock_def)

text \<open>
  Claim C9. With the empty string as \<^verbatim>\<open>agent_id\<close>, \<^verbatim>\<open>get_shared_knowledge\<close>
  returns the whole document, as it does without an agent, and never a namespace. With
  a non-empty \<^verbatim>\<open>agent_id\<close> it returns the namespace of that agent, which is the empty
  mapping for an agent without discoveries.
\<close>

theorem get_shared_knowledge_empty_agent_id:
  assumes "lock_path self \<noteq> memory_path self"
    and "fs (memory_path self) = Some (JsonFile m)"
  shows "get_shared_knowledge self (Some '''') fs =
           (Inr (AllKnowledge m), fs(lock_path self \<mapsto> EmptyFile))
       \<and> get_shared_knowledge self (Some '''') fs = get_shared_knowledge self None fs
       \<and> (\<forall>ns. fst (get_shared_knowledge self (Some '''') fs) \<noteq> Inr (AgentKnowledge ns))
       \<and> (\<forall>w. w \<noteq> '''' \<longrightarrow>
             get_shared_knowledge self (Some w) fs =
               (Inr (AgentKnowledge
                       (case map_of (discoveries m) w of Some ns \<Rightarrow> ns | None \<Rightarrow> [])),
                fs(lock_path self \<mapsto> EmptyFile)))
       \<and> (\<forall>w. w \<noteq> '''' \<and>
                (map_of (discoveries m) w = None \<or> map_of (discoveries m) w = Some []) \<longrightarrow>
             get_shared_knowledge self (Some w) fs =
               (Inr (AgentKnowledge []), fs(lock_path self \<mapsto> EmptyFile)))"
  by (auto simp add: get_shared_knowledge_eq[where fs = fs, OF assms] get_shared_knowledge_body_def)

theorem get_shared_knowledge_empty_agent_id_witness:
  "lock_path demo_store \<noteq> memory_path demo_store
   \<and> [memory_path demo_store \<mapsto> JsonFile demo_memory2] (memory_path demo_store)
        = Some (JsonFile demo_memory2)
   \<and> fst (get_shared_knowledge demo_store (Some [])
            [memory_path demo_store \<mapsto> JsonFile demo_memory2]) = Inr (AllKnowledge demo_memory2)
   \<and> ''qa_agent'' \<noteq> [] \<and> map_of (discoveries demo_memory2) ''qa_agent'' = None
   \<and> fst (get_shared_knowledge demo_store (Some ''qa_agent'')
            [memory_path demo_store \<mapsto> JsonFile demo_memory2]) = Inr (AgentKnowledge [])"
proof -
  have h1: "lock_path demo_store \<noteq> memory_path demo_store"
    by (simp add: demo_store_def)
  have h2: "[memory_path demo_store \<mapsto> JsonFile demo_memory2] (memory_path demo_store)
        = Some (JsonFile demo_memory2)"
    by simp
  have h3: "''qa_agent'' \<noteq> [] \<and> map_of (discoveries demo_memory2) ''qa_agent'' = None"
    by (simp add: demo_memory2_def)
  from get_shared_knowledge_empty_agent_id
         [where self = demo_store and m = demo_memory2
            and fs = "[memory_path demo_store \<mapsto> JsonFile demo_memory2]", OF h1 h2]
  show ?thesis using h1 h2 h3 by simp
qed

section \<open>Decisions\<close>

lemma record_decision_eq:
  assumes "lock_path self \<noteq> memory_path self" and "fs (memory_path self) = Some (JsonFile m)"
  shows "record_decision self u k dec who fs =
           (Inr (), fs(lock_path self \<mapsto> EmptyFile,
                       memory_path self \<mapsto> JsonFile (record_decision_body u k dec who m)))"
  using load_locked[of self fs m True, OF assms]
  by (simp add: record_decision_def Let_def release_lock_def dump_def acquire_lock_def)

text \<open>
  Claim C10. \<^verbatim>\<open>record_decision\<close> changes the entry of its key in \<^verbatim>\<open>decisions\<close> and
  nothing else in the document: the discoveries, the conflict log and every field of the
  metadata (\<^verbatim>\<open>last_updated\<close> and \<^verbatim>\<open>total_discoveries\<close> among them) are as before, and
  so are the decisions under all other keys, in the same order.
\<close>

theorem record_decision_frame:
  assumes "lock_path self \<noteq> memory_path self"
    and "fs (memory_path self) = Some (JsonFile m)"
  shows "\<exists>m'. record_decision self utcnow k dec who fs =
                 (Inr (), fs(lock_path self \<mapsto> EmptyFile, memory_path self \<mapsto> JsonFile m'))
           \<and> discoveries m' = discoveries m
           \<and> conflicts m' = conflicts m
           \<and> metadata m' = metadata m
           \<and> (\<forall>k'. k' \<noteq> k \<longrightarrow> map_of (decisions m') k' = map_of (decisions m) k')
           \<and> AList.delete k (decisions m') = AList.delete k (decisions m)
           \<and> map_of (decisions m') k =
               Some \<lparr>decision = dec, decided_by = who, d_timestamp = utcnow 0\<rparr>"
  by (intro exI[of _ "record_decision_body utcnow k dec who m"])
     (simp add: record_decision_eq[where fs = fs, OF assms] record_decision_body_def update_conv'
        delete_update_same)

theorem record_decision_frame_witness:
  "lock_path demo_store \<noteq> memory_path demo_store
   \<and> [memory_path demo_store \<mapsto> JsonFile demo_memory2] (memory_path demo_store)
        = Some (JsonFile demo_memory2)
   \<and> (\<exists>m'. snd (record_decision demo_store demo_clock ''api_endpoint_pattern''
                  (JStr ''use frontend pattern'') ''lead''
                  [memory_path demo_store \<mapsto> JsonFile demo_memory2]) (memory_path demo_store)
              = Some (JsonFile m')
           \<and> discoveries m' = discoveries demo_memory2
           \<and> conflicts m' = conflicts demo_memory2
           \<and> metadata m' = metadata demo_memory2
           \<and> map_of (decisions m') ''other_key'' = map_of (decisions demo_memory2) ''other_key'')"
proof -
  have h1: "lock_path demo_store \<noteq> memory_path demo_store"
    by (simp add: demo_store_def)
  have h2: "[memory_path demo_store \<mapsto> JsonFile demo_memory2] (memory_path demo_store)
        = Some (JsonFile demo_memory2)"
    by simp
  have h3: "''other_key'' \<noteq> ''api_endpoint_pattern''" by simp
  from record_decision_frame
         [where self = demo_store and m = demo_memory2 and utcnow = demo_clock
            and k = "''api_endpoint_pattern''" and dec = "JStr ''use frontend pattern''"
            and who = "''lead''"
            and fs = "[memory_path demo_store \<mapsto> JsonFile demo_memory2]", OF h1 h2]
  obtain m' where
    "record_decision demo_store demo_clock ''api_endpoint_pattern''
        (JStr ''use frontend pattern'') ''lead''
        [memory_path demo_store \<mapsto> JsonFile demo_memory2] =
       (Inr (), [memory_path demo_store \<mapsto> JsonFile demo_memory2,
                 lock_path demo_store \<mapsto> EmptyFile, memory_path demo_store \<mapsto> JsonFile m'])"
    "discoveries m' = discoveries demo_memory2" "conflicts m' = conflicts demo_memory2"
    "metadata m' = metadata demo_memory2"
    "\<forall>k'. k' \<noteq> ''api_endpoint_pattern'' \<longrightarrow>
        map_of (decisions m') k' = map_of (decisions demo_memory2) k'"
    by blast
  with h3 have "snd (record_decision demo_store demo_clock ''api_endpoint_pattern''
                  (JStr ''use frontend pattern'') ''lead''
                  [memory_path demo_store \<mapsto> JsonFile demo_memory2]) (memory_path demo_store)
              = Some (JsonFile m')
           \<and> discoveries m' = discoveries demo_memory2
           \<and> conflicts m' = conflicts demo_memory2
           \<and> metadata m' = metadata demo_memory2
           \<and> map_of (decisions m') ''other_key'' = map_of (decisions demo_memory2) ''other_key''"
    by simp
  with h1 h2 show ?thesis by blast
qed

lemma filter_update_key:
  "distinct (map fst al) \<Longrightarrow> filter (\<lambda>p. fst p = k) (AList.update k v al) = [(k, v)]"
proof (induction al)
  case Nil
  show ?case by simp
next
  case (Cons p al)
  show ?case
  proof (cases "fst p = k")
    case True
    with Cons.prems have "k \<notin> fst ` set al" by auto
    then have "filter (\<lambda>p. fst p = k) al = []"
      by (auto simp: filter_empty_conv)
    with True show ?thesis by simp
  next
    case False
    with Cons show ?thesis by simp
  qed
qed

lemma run_calls_decisions:
  assumes "lock_path self \<noteq> memory_path self"
    and "fs (memory_path self) = Some (JsonFile m)"
    and "distinct (map fst (decisions m))"
  shows "\<exists>m'. run_calls self calls fs (memory_path self) = Some (JsonFile m')
           \<and> distinct (map fst (decisions m'))
           \<and> fst ` set (decisions m') = fst ` set (decisions m) \<union> set (decision_keys calls)"
  using assms(2,3)
proof (induction calls arbitrary: fs m)
  case Nil
  then show ?case by simp
next
  case (Cons c calls)
  show ?case
  proof (cases c)
    case (RecordDiscovery u d)
    let ?m1 = "snd (record_discovery_body u d m)"
    let ?fs1 = "run_call self c fs"
    have f1: "?fs1 (memory_path self) = Some (JsonFile ?m1)"
      by (simp add: RecordDiscovery
          record_discovery_eq[of self fs m, OF assms(1) Cons.prems(1)])
    have d1: "decisions ?m1 = decisions m"
      by (simp add: record_discovery_body_eq)
    with Cons.prems(2) have "distinct (map fst (decisions ?m1))" by simp
    from Cons.IH[of ?fs1 ?m1, OF f1 this] show ?thesis
      by (simp add: d1 RecordDiscovery)
  next
    case (RecordDecision u k dec who)
    let ?m1 = "record_decision_body u k dec who m"
    let ?fs1 = "run_call self c fs"
    have f1: "?fs1 (memory_path self) = Some (JsonFile ?m1)"
      by (simp add: RecordDecision
          record_decision_eq[of self fs m, OF assms(1) Cons.prems(1)])
    have k1: "fst ` set (decisions ?m1) = insert k (fst ` set (decisions m))"
      by (simp add: record_decision_body_def dom_update)
    have "distinct (map fst (decisions ?m1))"
      using Cons.prems(2) by (simp add: record_decision_body_def distinct_update)
    from Cons.IH[of ?fs1 ?m1, OF f1 this] show ?thesis
      by (simp add: k1 RecordDecision)
  qed
qed

text \<open>
  Claim C7. After two calls of \<^verbatim>\<open>record_decision\<close> with the same key, the document is
  the one that the second call alone would have produced: the key has one entry, with
  the payload, the decider and the timestamp of the second call. From a fresh store,
  after any list of \<^verbatim>\<open>record_discovery\<close> and \<^verbatim>\<open>record_decision\<close> calls,
  \<^verbatim>\<open>total_decisions\<close> of \<^verbatim>\<open>get_agent_summary\<close> is at most the number of distinct keys
  passed to \<^verbatim>\<open>record_decision\<close>.
\<close>

theorem record_decision_last_wins:
  assumes "lock_path self \<noteq> memory_path self"
  shows "(\<forall>fs m. fs (memory_path self) = Some (JsonFile m) \<longrightarrow>
            (\<exists>m2. snd (record_decision self clock2 k dec2 who2
                         (snd (record_decision self clock1 k dec1 who1 fs))) (memory_path self)
                     = Some (JsonFile m2)
                 \<and> map_of (decisions m2) k =
                     Some \<lparr>decision = dec2, decided_by = who2, d_timestamp = clock2 0\<rparr>
                 \<and> m2 = record_decision_body clock2 k dec2 who2 m
                 \<and> (distinct (map fst (decisions m)) \<longrightarrow>
                      filter (\<lambda>p. fst p = k) (decisions m2) =
                        [(k, \<lparr>decision = dec2, decided_by = who2, d_timestamp = clock2 0\<rparr>)])))
       \<and> (\<forall>fs calls. fs (memory_path self) = None \<longrightarrow>
            (\<exists>s. fst (get_agent_summary self
                        (run_calls self calls (initialize_memory self init_clock fs))) = Inr s
                \<and> total_decisions s \<le> int (card (set (decision_keys calls)))))"
proof (intro conjI allI impI)
  fix fs m
  assume onfile: "fs (memory_path self) = Some (JsonFile m)"
  let ?m1 = "record_decision_body clock1 k dec1 who1 m"
  let ?fs1 = "snd (record_decision self clock1 k dec1 who1 fs)"
  let ?m2 = "record_decision_body clock2 k dec2 who2 m"
  have f1: "?fs1 (memory_path self) = Some (JsonFile ?m1)"
    by (simp add: record_decision_eq[of self fs m, OF assms onfile])
  have twice: "record_decision_body clock2 k dec2 who2 ?m1 = ?m2"
    by (simp add: record_decision_body_def)
  have f2: "snd (record_decision self clock2 k dec2 who2 ?fs1) (memory_path self)
              = Some (JsonFile ?m2)"
    by (simp add: record_decision_eq[of self ?fs1 ?m1, OF assms f1] twice)
  have look: "map_of (decisions ?m2) k =
                Some \<lparr>decision = dec2, decided_by = who2, d_timestamp = clock2 0\<rparr>"
    by (simp add: record_decision_body_def update_conv')
  have one: "distinct (map fst (decisions m)) \<longrightarrow>
               filter (\<lambda>p. fst p = k) (decisions ?m2) =
                 [(k, \<lparr>decision = dec2, decided_by = who2, d_timestamp = clock2 0\<rparr>)]"
    by (simp add: record_decision_body_def filter_update_key)
  from f2 look one
  show "\<exists>m2. snd (record_decision self clock2 k dec2 who2 ?fs1) (memory_path self)
                = Some (JsonFile m2)
            \<and> map_of (decisions m2) k =
                Some \<lparr>decision = dec2, decided_by = who2, d_timestamp = clock2 0\<rparr>
            \<and> m2 = record_decision_body clock2 k dec2 who2 m
            \<and> (distinct (map fst (decisions m)) \<longrightarrow>
                 filter (\<lambda>p. fst p = k) (decisions m2) =
                   [(k, \<lparr>decision = dec2, decided_by = who2, d_timestamp = clock2 0\<rparr>)])"
    by (intro exI[of _ ?m2]) simp
next
  fix fs :: "'a fs" and calls
  assume fresh: "fs (memory_path self) = None"
  let ?fs0 = "initialize_memory self init_clock fs"
  let ?m0 = "fresh_memory (init_clock 0)"
  have f0: "?fs0 (memory_path self) = Some (JsonFile ?m0)"
    using fresh by (simp add: initialize_memory_def)
  have d0: "distinct (map fst (decisions ?m0))"
    by (simp add: fresh_memory_def)
  from run_calls_decisions[of self ?fs0 ?m0 calls, OF assms f0 d0] obtain m where
    m: "run_calls self calls ?fs0 (memory_path self) = Some (JsonFile m)"
    "distinct (map fst (decisions m))"
    "fst ` set (decisions m) = set (decision_keys calls)"
    by (auto simp: fresh_memory_def)
  have s: "get_agent_summary self (run_calls self calls ?fs0) =
      (Inr (get_agent_summary_body m),
       (run_calls self calls ?fs0)(lock_path self \<mapsto> EmptyFile))"
    by (rule get_agent_summary_eq) (fact assms m(1))+
  have "length (decisions m) = card (set (map fst (decisions m)))"
    using distinct_card[OF m(2)] by simp
  also have "\<dots> = card (set (decision_keys calls))"
    using m(3) by simp
  finally have "total_decisions (get_agent_summary_body m)
                  = int (card (set (decision_keys calls)))"
    by (simp add: get_agent_summary_body_def)
  with s show "\<exists>s. fst (get_agent_summary self (run_calls self calls ?fs0)) = Inr s
                \<and> total_decisions s \<le> int (card (set (decision_keys calls)))"
    by (intro exI[of _ "get_agent_summary_body m"]) simp
qed

theorem record_decision_last_wins_witness:
  "lock_path demo_store \<noteq> memory_path demo_store
   \<and> [memory_path demo_store \<mapsto> JsonFile demo_memory2] (memory_path demo_store)
        = Some (JsonFile demo_memory2)
   \<and> distinct (map fst (decisions demo_memory2))
   \<and> (\<exists>m2. snd (record_decision demo_store demo_clock ''api_endpoint_pattern''
                  (JStr ''use backend pattern'') ''lead''
                  (snd (record_decision demo_store demo_clock ''api_endpoint_pattern''
                         (JStr ''use frontend pattern'') ''reviewer''
                         [memory_path demo_store \<mapsto> JsonFile demo_memory2])))
               (memory_path demo_store) = Some (JsonFile m2)
           \<and> filter (\<lambda>p. fst p = ''api_endpoint_pattern'') (decisions m2) =
               [(''api_endpoint_pattern'',
                 \<lparr>decision = JStr ''use backend pattern'', decided_by = ''lead'',
                  d_timestamp = demo_clock 0\<rparr>)])
   \<and> (Map.empty :: string list fs) (memory_path demo_store) = None
   \<and> (\<exists>s. fst (get_agent_summary demo_store
                 (run_calls demo_store
                    [RecordDecision demo_clock ''api_endpoint_pattern''
                       (JStr ''use frontend pattern'') ''reviewer'',
                     RecordDecision demo_clock ''api_endpoint_pattern''
                       (JStr ''use backend pattern'') ''lead'']
                    (initialize_memory demo_store demo_clock Map.empty))) = Inr s
          \<and> total_decisions s \<le> 1)"
proof -
  let ?fs = "[memory_path demo_store \<mapsto> JsonFile demo_memory2]"
  let ?calls = "[RecordDecision demo_clock ''api_endpoint_pattern''
                       (JStr ''use frontend pattern'') ''reviewer'',
                     RecordDecision demo_clock ''api_endpoint_pattern''
                       (JStr ''use backend pattern'') ''lead'']"
  have h1: "lock_path demo_store \<noteq> memory_path demo_store"
    by (simp add: demo_store_def)
  have h2: "?fs (memory_path demo_store) = Some (JsonFile demo_memory2)"
    by simp
  have h3: "distinct (map fst (decisions demo_memory2))"
    by (simp add: demo_memory2_def)
  have h4: "(Map.empty :: string list fs) (memory_path demo_store) = None"
    by simp
  have c: "int (card (set (decision_keys ?calls))) = 1"
    by simp
  note inst = record_decision_last_wins
         [where self = demo_store and k = "''api_endpoint_pattern''"
            and ?clock1.0 = demo_clock and ?clock2.0 = demo_clock
            and ?dec1.0 = "JStr ''use frontend pattern''" and ?who1.0 = "''reviewer''"
            and ?dec2.0 = "JStr ''use backend pattern''" and ?who2.0 = "''lead''"
            and init_clock = demo_clock, OF h1]
  from inst[THEN conjunct1, rule_format, of ?fs demo_memory2, OF h2] h3
  have a': "\<exists>m2. snd (record_decision demo_store demo_clock ''api_endpoint_pattern''
                         (JStr ''use backend pattern'') ''lead''
                         (snd (record_decision demo_store demo_clock ''api_endpoint_pattern''
                                (JStr ''use frontend pattern'') ''reviewer'' ?fs)))
                      (memory_path demo_store) = Some (JsonFile m2)
                 \<and> filter (\<lambda>p. fst p = ''api_endpoint_pattern'') (decisions m2) =
                        [(''api_endpoint_pattern'',
                          \<lparr>decision = JStr ''use backend pattern'', decided_by = ''lead'',
                           d_timestamp = demo_clock 0\<rparr>)]"
    by blast
  from inst[THEN conjunct2, rule_format, of "Map.empty" ?calls, OF h4] c
  have b': "\<exists>s. fst (get_agent_summary demo_store
                        (run_calls demo_store ?calls
                           (initialize_memory demo_store demo_clock Map.empty))) = Inr s
                \<and> total_decisions s \<le> 1"
    by simp
  from h1 h2 h3 a' h4 b' show ?thesis by blast
qed

section \<open>Checkpoints\<close>








end
